theory Spec2Isabelle
  imports Complex_Main
begin

section \<open>Python values\<close>

text \<open>
  The converter of \<^verbatim>\<open>streamlit_app.py\<close> works on the tree that \<^verbatim>\<open>json.load\<close> returns:
  \<^verbatim>\<open>None\<close>, booleans, integers, floats, strings, lists and dictionaries, with no static
  types. A Python \<^verbatim>\<open>str\<close> is a sequence of Unicode code points; it is modelled as the
  list of its code points, so that \<^verbatim>\<open>len\<close>, equality and \<^verbatim>\<open>strip\<close> see what Python sees.
  \<open>u\<close> turns an ASCII literal of the source into such a string.
\<close>

type_synonym ustring = "nat list"

definition u :: "string \<Rightarrow> ustring" where
  "u s = map of_char s"

text \<open>
  A dictionary is an association list in insertion order; a key is looked up with
  \<open>map_of\<close>. The dictionaries \<^verbatim>\<open>json.load\<close> builds have distinct keys.
  \<open>JFloat\<close> carries the value of the number as it is written.
\<close>

datatype json =
    JNull
  | JBool bool
  | JInt int
  | JFloat real
  | JStr ustring
  | JArr "json list"
  | JObj "(ustring \<times> json) list"

text \<open>
  The exceptions the converter can end with. \<open>ValueError\<close> is the one line 80 raises.
  \<open>EncodeError\<close> stands for the exception of the tokenizer: tiktoken's \<^verbatim>\<open>encode\<close> refuses a
  text that holds one of its special tokens, such as \<^verbatim>\<open><|endoftext|>\<close>, and raises a
  \<^verbatim>\<open>ValueError\<close> of its own with another message. The two are kept apart here, as their
  messages keep them apart for a caller.
\<close>

datatype py_error =
    ValueError
  | KeyError ustring
  | TypeError
  | AttributeError
  | EncodeError

text \<open>\<^verbatim>\<open>x[k]\<close> for a string key: only a dictionary can be subscripted by a string.\<close>

fun py_getitem :: "json \<Rightarrow> ustring \<Rightarrow> py_error + json" where
  "py_getitem (JObj kvs) k =
     (case map_of kvs k of None \<Rightarrow> Inl (KeyError k) | Some v \<Rightarrow> Inr v)"
| "py_getitem _ k = Inl TypeError"

text \<open>\<^verbatim>\<open>x.get(k, d)\<close>: only a dictionary has the method.\<close>

fun py_get :: "json \<Rightarrow> ustring \<Rightarrow> json \<Rightarrow> py_error + json" where
  "py_get (JObj kvs) k d = Inr (case map_of kvs k of None \<Rightarrow> d | Some v \<Rightarrow> v)"
| "py_get _ k d = Inl AttributeError"

text \<open>
  \<^verbatim>\<open>for x in v\<close>: a list yields its elements, a dictionary its keys, a string its
  characters as one-character strings; nothing else is iterable.
\<close>

fun py_iter :: "json \<Rightarrow> py_error + json list" where
  "py_iter (JArr xs) = Inr xs"
| "py_iter (JObj kvs) = Inr (map (\<lambda>kv. JStr (fst kv)) kvs)"
| "py_iter (JStr s) = Inr (map (\<lambda>c. JStr [c]) s)"
| "py_iter _ = Inl TypeError"

subsection \<open>Strings: \<^verbatim>\<open>str.strip\<close>, \<^verbatim>\<open>str.replace\<close>, \<^verbatim>\<open>str.endswith\<close>\<close>

text \<open>
  The code points for which Python's \<^verbatim>\<open>str.isspace\<close> holds; \<^verbatim>\<open>strip()\<close> without an
  argument removes exactly these from both ends.
\<close>

definition isspace :: "nat \<Rightarrow> bool" where
  "isspace c \<longleftrightarrow>
     (9 \<le> c \<and> c \<le> 13) \<or> (28 \<le> c \<and> c \<le> 32) \<or> c = 133 \<or> c = 160 \<or> c = 5760 \<or>
     (8192 \<le> c \<and> c \<le> 8202) \<or> c = 8232 \<or> c = 8233 \<or> c = 8239 \<or> c = 8287 \<or> c = 12288"

definition strip :: "ustring \<Rightarrow> ustring" where
  "strip s = rev (dropWhile isspace (rev (dropWhile isspace s)))"

text \<open>\<^verbatim>\<open>v.strip()\<close> on a value: only a string has the method.\<close>

fun py_strip :: "json \<Rightarrow> py_error + ustring" where
  "py_strip (JStr s) = Inr (strip s)"
| "py_strip _ = Inl AttributeError"

definition endswith :: "ustring \<Rightarrow> ustring \<Rightarrow> bool" where
  "endswith s suffix \<longleftrightarrow>
     length suffix \<le> length s \<and> drop (length s - length suffix) s = suffix"

text \<open>
  \<^verbatim>\<open>s.replace(old, new)\<close> replaces every non-overlapping occurrence of \<open>old\<close>, scanning
  from the left. With an empty \<open>old\<close> Python inserts \<open>new\<close> before every character and
  at the end.
\<close>

function replace_from :: "ustring \<Rightarrow> ustring \<Rightarrow> ustring \<Rightarrow> ustring" where
  "replace_from old new [] = []"
| "replace_from old new (c # cs) =
     (if old \<noteq> [] \<and> take (length old) (c # cs) = old
      then new @ replace_from old new (drop (length old) (c # cs))
      else c # replace_from old new cs)"
  by pat_completeness auto
termination
  by (relation "measure (\<lambda>(old, new, s). length s)") (auto simp: neq_Nil_conv)

definition replace :: "ustring \<Rightarrow> ustring \<Rightarrow> ustring \<Rightarrow> ustring" where
  "replace s old new =
     (if old = [] then new @ concat (map (\<lambda>c. c # new) s) else replace_from old new s)"

section \<open>The converter\<close>

subsection \<open>Token counting\<close>

text \<open>
  \<^verbatim>\<open>enc\<close> is tiktoken's \<^verbatim>\<open>cl100k_base\<close> encoder, created outside the repository; the model
  takes its \<^verbatim>\<open>encode\<close> as the parameter \<open>enc\<close>: a function from a string to its tokens, or
  to \<open>None\<close> where \<^verbatim>\<open>encode\<close> raises.
\<close>

type_synonym 'tok encoder = "ustring \<Rightarrow> 'tok list option"

definition count_tokens :: "'tok encoder \<Rightarrow> ustring \<Rightarrow> py_error + int" where
  "count_tokens enc text =
     (if text = [] then Inr 0
      else case enc text of None \<Rightarrow> Inl EncodeError | Some tokens \<Rightarrow> Inr (int (length tokens)))"

subsection \<open>Statistics and the state of the traversal\<close>

record token_stats =
  total_tokens :: int
  user_tokens :: int
  model_tokens :: int
  thinking_tokens :: int
  message_count :: int
  has_thinking :: bool

definition token_stats_init :: token_stats where
  "token_stats_init =
     \<lparr>total_tokens = 0, user_tokens = 0, model_tokens = 0, thinking_tokens = 0,
      message_count = 0, has_thinking = False\<rparr>"

text \<open>
  The loops mutate two things: the list \<^verbatim>\<open>converted["chunkedPrompt"]["chunks"]\<close> and
  the dictionary \<^verbatim>\<open>token_stats\<close>. The model threads both through the traversal; an
  exception abandons them.
\<close>

record conv_state =
  chunks :: "json list"
  stats :: token_stats

definition conv_state_init :: conv_state where
  "conv_state_init = \<lparr>chunks = [], stats = token_stats_init\<rparr>"

subsection \<open>The fixed part of the output\<close>

definition run_settings :: json where
  "run_settings = JObj
     [(u ''temperature'', JFloat 1.0),
      (u ''model'', JStr (u ''models/gemini-2.5-pro-preview-03-25'')),
      (u ''topP'', JFloat 0.95),
      (u ''topK'', JInt 64),
      (u ''maxOutputTokens'', JInt 65536),
      (u ''safetySettings'', JArr
         [JObj [(u ''category'', JStr (u ''HARM_CATEGORY_HARASSMENT'')),
                (u ''threshold'', JStr (u ''OFF''))],
          JObj [(u ''category'', JStr (u ''HARM_CATEGORY_HATE_SPEECH'')),
                (u ''threshold'', JStr (u ''OFF''))],
          JObj [(u ''category'', JStr (u ''HARM_CATEGORY_SEXUALLY_EXPLICIT'')),
                (u ''threshold'', JStr (u ''OFF''))],
          JObj [(u ''category'', JStr (u ''HARM_CATEGORY_DANGEROUS_CONTENT'')),
                (u ''threshold'', JStr (u ''OFF''))]]),
      (u ''responseMimeType'', JStr (u ''text/plain'')),
      (u ''enableCodeExecution'', JBool False),
      (u ''enableEnhancedCivicAnswers'', JBool True),
      (u ''enableSearchAsATool'', JBool False),
      (u ''enableBrowseAsATool'', JBool False),
      (u ''enableAutoFunctionResponse'', JBool False)]"

text \<open>The dictionary \<^verbatim>\<open>converted\<close>, with \<open>cs\<close> the chunks appended so far.\<close>

definition converted :: "json list \<Rightarrow> json" where
  "converted cs = JObj
     [(u ''runSettings'', run_settings),
      (u ''systemInstruction'', JObj []),
      (u ''chunkedPrompt'', JObj
         [(u ''chunks'', JArr cs),
          (u ''pendingInputs'', JArr [JObj [(u ''text'', JStr []), (u ''role'', JStr (u ''user''))]])])]"

subsection \<open>One segment\<close>

definition thinking_chunk :: "ustring \<Rightarrow> ustring \<Rightarrow> int \<Rightarrow> json" where
  "thinking_chunk text role token_count = JObj
     [(u ''text'', JStr text),
      (u ''role'', JStr role),
      (u ''isThought'', JBool True),
      (u ''tokenCount'', JInt token_count)]"

definition text_chunk :: "ustring \<Rightarrow> ustring \<Rightarrow> int \<Rightarrow> json" where
  "text_chunk text role token_count = JObj
     ([(u ''text'', JStr text),
       (u ''role'', JStr role),
       (u ''tokenCount'', JInt token_count)] @
      (if role = u ''model'' then [(u ''finishReason'', JStr (u ''STOP''))] else []))"

text \<open>
  The body of the inner loop (lines 126 to 159). The \<^verbatim>\<open>elif\<close> looks \<^verbatim>\<open>segment["type"]\<close>
  up a second time; the first lookup has succeeded by then, so it gives the same value.
  When \<^verbatim>\<open>count_tokens\<close> raises, the exception leaves the conversion and what the segment
  has done to the state so far is abandoned with it.
\<close>

definition process_segment ::
  "'tok encoder \<Rightarrow> ustring \<Rightarrow> conv_state \<Rightarrow> json \<Rightarrow> py_error + conv_state" where
  "process_segment enc role st segment =
     (case py_getitem segment (u ''type'') of
        Inl e \<Rightarrow> Inl e
      | Inr ty \<Rightarrow>
          if ty = JStr (u ''thinking'') then
            (case py_get segment (u ''thinking'') (JStr []) of
               Inl e \<Rightarrow> Inl e
             | Inr v \<Rightarrow>
                 (case py_strip v of
                    Inl e \<Rightarrow> Inl e
                  | Inr text \<Rightarrow>
                      if text \<noteq> [] then
                        (let ts = (stats st)\<lparr>has_thinking := True\<rparr>
                         in case count_tokens enc text of
                              Inl e \<Rightarrow> Inl e
                            | Inr token_count \<Rightarrow>
                                (let ts = ts\<lparr>total_tokens := total_tokens ts + token_count\<rparr>;
                                     ts = ts\<lparr>thinking_tokens :=
                                            thinking_tokens ts + token_count\<rparr>
                                 in Inr \<lparr>chunks =
                                           chunks st @ [thinking_chunk text role token_count],
                                         stats = ts\<rparr>))
                      else Inr st))
          else if ty = JStr (u ''text'') then
            (case py_get segment (u ''text'') (JStr []) of
               Inl e \<Rightarrow> Inl e
             | Inr v \<Rightarrow>
                 (case py_strip v of
                    Inl e \<Rightarrow> Inl e
                  | Inr text \<Rightarrow>
                      if text \<noteq> [] then
                        (case count_tokens enc text of
                           Inl e \<Rightarrow> Inl e
                         | Inr token_count \<Rightarrow>
                             (let ts = stats st;
                                  ts = ts\<lparr>total_tokens := total_tokens ts + token_count\<rparr>;
                                  ts = (if role = u ''user''
                                        then ts\<lparr>user_tokens := user_tokens ts + token_count\<rparr>
                                        else ts\<lparr>model_tokens :=
                                               model_tokens ts + token_count\<rparr>)
                              in Inr \<lparr>chunks = chunks st @ [text_chunk text role token_count],
                                      stats = ts\<rparr>))
                      else Inr st))
          else Inr st)"

fun segments_loop ::
  "'tok encoder \<Rightarrow> ustring \<Rightarrow> conv_state \<Rightarrow> json list \<Rightarrow> py_error + conv_state" where
  "segments_loop enc role st [] = Inr st"
| "segments_loop enc role st (segment # rest) =
     (case process_segment enc role st segment of
        Inl e \<Rightarrow> Inl e
      | Inr st' \<Rightarrow> segments_loop enc role st' rest)"

subsection \<open>One message\<close>

text \<open>The body of the outer loop (lines 122 to 159).\<close>

definition process_message ::
  "'tok encoder \<Rightarrow> conv_state \<Rightarrow> json \<Rightarrow> py_error + conv_state" where
  "process_message enc st msg =
     (case py_getitem msg (u ''sender'') of
        Inl e \<Rightarrow> Inl e
      | Inr sender \<Rightarrow>
          (let role = (if sender = JStr (u ''human'') then u ''user'' else u ''model'');
               st1 = st\<lparr>stats := (stats st)\<lparr>message_count := message_count (stats st) + 1\<rparr>\<rparr>
           in case py_get msg (u ''content'') (JArr []) of
                Inl e \<Rightarrow> Inl e
              | Inr content \<Rightarrow>
                  (case py_iter content of
                     Inl e \<Rightarrow> Inl e
                   | Inr segments \<Rightarrow> segments_loop enc role st1 segments)))"

fun messages_loop ::
  "'tok encoder \<Rightarrow> conv_state \<Rightarrow> json list \<Rightarrow> py_error + conv_state" where
  "messages_loop enc st [] = Inr st"
| "messages_loop enc st (msg # rest) =
     (case process_message enc st msg of
        Inl e \<Rightarrow> Inl e
      | Inr st' \<Rightarrow> messages_loop enc st' rest)"

subsection \<open>\<^verbatim>\<open>convert_claude_to_gemini\<close>\<close>

text \<open>
  Line 79: \<^verbatim>\<open>not isinstance(source_data, dict) or "chat_messages" not in source_data\<close>.
\<close>

fun is_claude_source :: "json \<Rightarrow> bool" where
  "is_claude_source (JObj kvs) = (map_of kvs (u ''chat_messages'') \<noteq> None)"
| "is_claude_source _ = False"

definition convert_claude_to_gemini ::
  "'tok encoder \<Rightarrow> json \<Rightarrow> py_error + (json \<times> token_stats)" where
  "convert_claude_to_gemini enc source_data =
     (if \<not> is_claude_source source_data then Inl ValueError
      else
        (case py_get source_data (u ''chat_messages'') (JArr []) of
           Inl e \<Rightarrow> Inl e
         | Inr msgs \<Rightarrow>
             (case py_iter msgs of
                Inl e \<Rightarrow> Inl e
              | Inr messages \<Rightarrow>
                  (case messages_loop enc conv_state_init messages of
                     Inl e \<Rightarrow> Inl e
                   | Inr st \<Rightarrow> Inr (converted (chunks st), stats st)))))"

subsection \<open>The name of the downloaded file\<close>

text \<open>Lines 242 to 244.\<close>

definition output_filename :: "ustring \<Rightarrow> ustring" where
  "output_filename name =
     (let output_filename = replace name (u ''.json'') (u ''_gemini.json'')
      in if \<not> endswith output_filename (u ''_gemini.json'')
         then output_filename @ u ''_gemini.json''
         else output_filename)"

section \<open>The document as the specification reads it\<close>

text \<open>
  The specification speaks of the messages of a document, the segments of a message, the
  variant of a segment and its trimmed text. These notions are written here from its
  words, as total functions on any value, to be compared with what the traversal does.
  A value that is not a mapping has no fields; a \<open>chat_messages\<close> or \<open>content\<close> that is
  absent or not a list holds no messages or segments; a payload that is absent or not a
  string has the empty text.
\<close>

fun field :: "json \<Rightarrow> ustring \<Rightarrow> json option" where
  "field (JObj kvs) k = map_of kvs k"
| "field _ k = None"

definition doc_messages :: "json \<Rightarrow> json list" where
  "doc_messages source =
     (case field source (u ''chat_messages'') of Some (JArr ms) \<Rightarrow> ms | _ \<Rightarrow> [])"

definition msg_segments :: "json \<Rightarrow> json list" where
  "msg_segments msg =
     (case field msg (u ''content'') of Some (JArr segs) \<Rightarrow> segs | _ \<Rightarrow> [])"

definition resolved_role :: "json \<Rightarrow> ustring" where
  "resolved_role msg =
     (if field msg (u ''sender'') = Some (JStr (u ''human'')) then u ''user'' else u ''model'')"

definition is_thinking :: "json \<Rightarrow> bool" where
  "is_thinking seg \<longleftrightarrow> field seg (u ''type'') = Some (JStr (u ''thinking''))"

definition is_text :: "json \<Rightarrow> bool" where
  "is_text seg \<longleftrightarrow> field seg (u ''type'') = Some (JStr (u ''text''))"

definition trimmed_field :: "ustring \<Rightarrow> json \<Rightarrow> ustring" where
  "trimmed_field k seg = (case field seg k of Some (JStr s) \<Rightarrow> strip s | _ \<Rightarrow> [])"

text \<open>The trimmed text of a segment: empty for a segment of any other variant.\<close>

definition trimmed_payload :: "json \<Rightarrow> ustring" where
  "trimmed_payload seg =
     (if is_thinking seg then trimmed_field (u ''thinking'') seg
      else if is_text seg then trimmed_field (u ''text'') seg
      else [])"

text \<open>A text or thinking segment that is not empty after trimming.\<close>

definition counted :: "json \<Rightarrow> bool" where
  "counted seg \<longleftrightarrow> trimmed_payload seg \<noteq> []"

text \<open>
  The segments in encounter order, each with its message: messages in input order, the
  segments of a message in input order.
\<close>

definition encounter :: "json \<Rightarrow> (json \<times> json) list" where
  "encounter source =
     concat (map (\<lambda>m. map (Pair m) (msg_segments m)) (doc_messages source))"

definition counted_segments :: "json \<Rightarrow> (json \<times> json) list" where
  "counted_segments source = filter (\<lambda>(m, s). counted s) (encounter source)"

text \<open>
  The token count of a segment is the number of tokens of its trimmed text. \<open>answered\<close>
  says that the tokenizer gives tokens for it; where it does not, there is no count, and
  \<open>segment_tokens\<close> is 0 there for want of a value.
\<close>

definition answered :: "'tok encoder \<Rightarrow> json \<times> json \<Rightarrow> bool" where
  "answered enc p \<longleftrightarrow> enc (trimmed_payload (snd p)) \<noteq> None"

definition segment_tokens :: "'tok encoder \<Rightarrow> json \<times> json \<Rightarrow> int" where
  "segment_tokens enc p =
     (case enc (trimmed_payload (snd p)) of None \<Rightarrow> 0 | Some tokens \<Rightarrow> int (length tokens))"

text \<open>The chunk a counted segment stands for.\<close>

definition chunk_of :: "'tok encoder \<Rightarrow> json \<times> json \<Rightarrow> json" where
  "chunk_of enc p =
     (if is_thinking (snd p)
      then thinking_chunk (trimmed_payload (snd p)) (resolved_role (fst p)) (segment_tokens enc p)
      else text_chunk (trimmed_payload (snd p)) (resolved_role (fst p)) (segment_tokens enc p))"

text \<open>The reference definitions of the statistics.\<close>

definition ref_message_count :: "json \<Rightarrow> int" where
  "ref_message_count source = int (length (doc_messages source))"

definition ref_thinking_tokens :: "'tok encoder \<Rightarrow> json \<Rightarrow> int" where
  "ref_thinking_tokens enc source =
     sum_list (map (segment_tokens enc)
       (filter (\<lambda>(m, s). is_thinking s) (counted_segments source)))"

definition ref_user_tokens :: "'tok encoder \<Rightarrow> json \<Rightarrow> int" where
  "ref_user_tokens enc source =
     sum_list (map (segment_tokens enc)
       (filter (\<lambda>(m, s). is_text s \<and> resolved_role m = u ''user'') (counted_segments source)))"

definition ref_model_tokens :: "'tok encoder \<Rightarrow> json \<Rightarrow> int" where
  "ref_model_tokens enc source =
     sum_list (map (segment_tokens enc)
       (filter (\<lambda>(m, s). is_text s \<and> resolved_role m = u ''model'') (counted_segments source)))"

definition ref_has_thinking :: "json \<Rightarrow> bool" where
  "ref_has_thinking source = list_ex (\<lambda>(m, s). is_thinking s) (counted_segments source)"

text \<open>
  The chunks of a converted document, as line 220 reads them:
  \<^verbatim>\<open>converted_data["chunkedPrompt"]["chunks"]\<close>.
\<close>

definition doc_chunks :: "json \<Rightarrow> json list" where
  "doc_chunks doc =
     (case field doc (u ''chunkedPrompt'') of
        Some cp \<Rightarrow> (case field cp (u ''chunks'') of Some (JArr cs) \<Rightarrow> cs | _ \<Rightarrow> [])
      | None \<Rightarrow> [])"

text \<open>
  The derived file name in the specification's words: the name without its
  \<^verbatim>\<open>.json\<close> suffix, or the whole name when it has none, followed by \<^verbatim>\<open>_gemini.json\<close>.
\<close>

definition ref_output_filename :: "ustring \<Rightarrow> ustring" where
  "ref_output_filename name =
     (if endswith name (u ''.json'')
      then take (length name - length (u ''.json'')) name @ u ''_gemini.json''
      else name @ u ''_gemini.json'')"

section \<open>A sample conversation\<close>

text \<open>A stand-in tokenizer for the examples: one token for each code point.\<close>

definition char_tokens :: "nat encoder" where
  "char_tokens s = Some s"

text \<open>
  A tokenizer that refuses the special token \<^verbatim>\<open><|endoftext|>\<close>, as tiktoken does, and a
  document that holds it.
\<close>

definition strict_tokens :: "nat encoder" where
  "strict_tokens s = (if s = u ''<|endoftext|>'' then None else Some s)"

definition special_segment :: json where
  "special_segment =
     JObj [(u ''type'', JStr (u ''text'')), (u ''text'', JStr (u ''<|endoftext|>''))]"

definition special_source :: json where
  "special_source = JObj
     [(u ''chat_messages'', JArr
        [JObj [(u ''sender'', JStr (u ''human'')), (u ''content'', JArr [special_segment])]])]"

definition greeting_segment :: json where
  "greeting_segment = JObj [(u ''type'', JStr (u ''text'')), (u ''text'', JStr (u '' Hi ''))]"

definition example_source :: json where
  "example_source = JObj
     [(u ''name'', JStr (u ''demo'')),
      (u ''chat_messages'', JArr
        [JObj [(u ''sender'', JStr (u ''human'')),
               (u ''content'', JArr
                  [JObj [(u ''type'', JStr (u ''text'')), (u ''text'', JStr (u '' Hi ''))],
                   JObj [(u ''type'', JStr (u ''image''))]])],
         JObj [(u ''sender'', JStr (u ''assistant'')),
               (u ''content'', JArr
                  [JObj [(u ''type'', JStr (u ''thinking'')), (u ''thinking'', JStr (u ''hm''))],
                   JObj [(u ''type'', JStr (u ''text'')), (u ''text'', JStr (u ''   ''))],
                   JObj [(u ''type'', JStr (u ''text'')), (u ''text'', JStr (u ''Hello''))]])],
         JObj [(u ''sender'', JStr (u ''human''))]])]"

definition example_chunks :: "json list" where
  "example_chunks =
     [text_chunk (u ''Hi'') (u ''user'') 2,
      thinking_chunk (u ''hm'') (u ''model'') 2,
      text_chunk (u ''Hello'') (u ''model'') 5]"

definition example_stats :: token_stats where
  "example_stats =
     \<lparr>total_tokens = 9, user_tokens = 2, model_tokens = 5, thinking_tokens = 2,
      message_count = 3, has_thinking = True\<rparr>"

definition blank_segment :: json where
  "blank_segment = JObj [(u ''type'', JStr (u ''text'')), (u ''text'', JStr (u ''   ''))]"

text \<open>The invariant of the traversal behind the sum of the token counts.\<close>

definition balanced :: "conv_state \<Rightarrow> bool" where
  "balanced st \<longleftrightarrow>
     total_tokens (stats st) =
       user_tokens (stats st) + model_tokens (stats st) + thinking_tokens (stats st)"

text \<open>
  What a successful stretch of the traversal does to the state, in terms of the pairs of
  message and segment it has passed and the number \<open>n\<close> of messages it has started.
\<close>

definition grows ::
  "'tok encoder \<Rightarrow> nat \<Rightarrow> conv_state \<Rightarrow> conv_state \<Rightarrow> (json \<times> json) list \<Rightarrow> bool" where
  "grows enc n st st' ps \<longleftrightarrow>
     list_all (answered enc) (filter (\<lambda>(m, s). counted s) ps) \<and>
     chunks st' = chunks st @ map (chunk_of enc) (filter (\<lambda>(m, s). counted s) ps) \<and>
     thinking_tokens (stats st') = thinking_tokens (stats st) +
       sum_list (map (segment_tokens enc)
         (filter (\<lambda>(m, s). is_thinking s) (filter (\<lambda>(m, s). counted s) ps))) \<and>
     user_tokens (stats st') = user_tokens (stats st) +
       sum_list (map (segment_tokens enc)
         (filter (\<lambda>(m, s). is_text s \<and> resolved_role m = u ''user'')
           (filter (\<lambda>(m, s). counted s) ps))) \<and>
     model_tokens (stats st') = model_tokens (stats st) +
       sum_list (map (segment_tokens enc)
         (filter (\<lambda>(m, s). is_text s \<and> resolved_role m = u ''model'')
           (filter (\<lambda>(m, s). counted s) ps))) \<and>
     message_count (stats st') = message_count (stats st) + int n \<and>
     has_thinking (stats st') =
       (has_thinking (stats st) \<or>
        list_ex (\<lambda>(m, s). is_thinking s) (filter (\<lambda>(m, s). counted s) ps))"

section \<open>The sample conversation converts\<close>

lemma example_converts:
  "convert_claude_to_gemini char_tokens example_source =
     Inr (converted example_chunks, example_stats)"
  by (simp add: example_source_def example_chunks_def example_stats_def
      convert_claude_to_gemini_def process_message_def process_segment_def
      conv_state_init_def token_stats_init_def count_tokens_def char_tokens_def
      strip_def isspace_def u_def Let_def)

section \<open>The total is the sum of its parts\<close>

lemma process_segment_balanced:
  assumes "process_segment enc role st segment = Inr st'" and "balanced st"
  shows "balanced st'"
  using assms
  by (auto simp: process_segment_def balanced_def Let_def split: sum.splits if_splits)

lemma segments_loop_balanced:
  "segments_loop enc role st segments = Inr st' \<Longrightarrow> balanced st \<Longrightarrow> balanced st'"
proof (induction segments arbitrary: st)
  case Nil
  then show ?case by simp
next
  case (Cons segment rest)
  from Cons.prems(1) obtain st1 where
    one: "process_segment enc role st segment = Inr st1" and
    more: "segments_loop enc role st1 rest = Inr st'"
    by (auto split: sum.splits)
  from one Cons.prems(2) have "balanced st1" by (rule process_segment_balanced)
  with more show ?case by (rule Cons.IH)
qed

lemma process_message_balanced:
  assumes "process_message enc st msg = Inr st'" and "balanced st"
  shows "balanced st'"
proof -
  let ?st1 = "st\<lparr>stats := (stats st)\<lparr>message_count := message_count (stats st) + 1\<rparr>\<rparr>"
  from assms(1) obtain role segments where
    "segments_loop enc role ?st1 segments = Inr st'"
    by (auto simp: process_message_def Let_def split: sum.splits)
  moreover from assms(2) have "balanced ?st1" by (simp add: balanced_def)
  ultimately show ?thesis by (rule segments_loop_balanced)
qed

lemma messages_loop_balanced:
  "messages_loop enc st messages = Inr st' \<Longrightarrow> balanced st \<Longrightarrow> balanced st'"
proof (induction messages arbitrary: st)
  case Nil
  then show ?case by simp
next
  case (Cons msg rest)
  from Cons.prems(1) obtain st1 where
    one: "process_message enc st msg = Inr st1" and
    more: "messages_loop enc st1 rest = Inr st'"
    by (auto split: sum.splits)
  from one Cons.prems(2) have "balanced st1" by (rule process_message_balanced)
  with more show ?case by (rule Cons.IH)
qed

text \<open>
  Claim C3. Whenever the conversion succeeds, the returned statistics satisfy
  \<open>total_tokens = user_tokens + model_tokens + thinking_tokens\<close>.
\<close>

theorem total_tokens_is_sum:
  assumes "convert_claude_to_gemini enc source_data = Inr (doc, ts)"
  shows "total_tokens ts = user_tokens ts + model_tokens ts + thinking_tokens ts"
proof -
  from assms obtain messages st where
    run: "messages_loop enc conv_state_init messages = Inr st" and ts: "ts = stats st"
    by (auto simp: convert_claude_to_gemini_def split: if_splits sum.splits)
  have "balanced conv_state_init"
    by (simp add: balanced_def conv_state_init_def token_stats_init_def)
  with run have "balanced st" by (rule messages_loop_balanced)
  with ts show ?thesis by (simp add: balanced_def)
qed

theorem total_tokens_is_sum_witness:
  "convert_claude_to_gemini char_tokens example_source =
     Inr (converted example_chunks, example_stats) \<and>
   total_tokens example_stats =
     user_tokens example_stats + model_tokens example_stats + thinking_tokens example_stats"
  using total_tokens_is_sum [OF example_converts] example_converts by simp

section \<open>The traversal against the reference view\<close>

lemma user_neq_model: "u ''user'' \<noteq> u ''model''"
  by (simp add: u_def)

lemma thinking_neq_text: "u ''thinking'' \<noteq> u ''text''"
  by (simp add: u_def)

lemma resolved_role_cases: "resolved_role m = u ''user'' \<or> resolved_role m = u ''model''"
  by (simp add: resolved_role_def)

lemma py_getitem_Inr: "py_getitem x k = Inr v \<longleftrightarrow> field x k = Some v"
  by (cases x) (auto split: option.splits)

lemma py_get_strip:
  assumes "py_get seg k (JStr []) = Inr v" and "py_strip v = Inr text"
  shows "text = trimmed_field k seg"
proof -
  from assms(2) obtain s where v: "v = JStr s" and stripped: "text = strip s"
    by (cases v) auto
  from assms(1) obtain kvs where seg: "seg = JObj kvs"
    by (cases seg) auto
  show ?thesis
  proof (cases "map_of kvs k")
    case None
    with assms(1) seg v have "s = []" by simp
    with None seg stripped show ?thesis by (simp add: trimmed_field_def strip_def)
  next
    case (Some w)
    with assms(1) seg v have "w = JStr s" by simp
    with Some seg stripped show ?thesis by (simp add: trimmed_field_def)
  qed
qed

lemma grows_refl: "grows enc 0 st st []"
  by (simp add: grows_def)

lemma grows_trans:
  assumes "grows enc i st st1 ps" and "grows enc j st1 st2 qs"
  shows "grows enc (i + j) st st2 (ps @ qs)"
  using assms unfolding grows_def by simp

lemma grows_skip:
  assumes "\<not> counted seg"
  shows "grows enc 0 st st [(m, seg)]"
  using assms by (simp add: grows_def)

lemma count_tokens_Inr:
  assumes "count_tokens enc t = Inr n" and "t \<noteq> []"
  shows "\<exists>tokens. enc t = Some tokens \<and> n = int (length tokens)"
  using assms by (auto simp: count_tokens_def split: option.splits)

lemma grows_thinking:
  assumes "is_thinking seg" and "trimmed_payload seg \<noteq> []"
    and "enc (trimmed_payload seg) = Some tokens"
    and "chunks st' = chunks st @
           [thinking_chunk (trimmed_payload seg) (resolved_role m) (int (length tokens))]"
    and "thinking_tokens (stats st') =
           thinking_tokens (stats st) + int (length tokens)"
    and "user_tokens (stats st') = user_tokens (stats st)"
    and "model_tokens (stats st') = model_tokens (stats st)"
    and "message_count (stats st') = message_count (stats st)"
    and "has_thinking (stats st')"
  shows "grows enc 0 st st' [(m, seg)]"
proof -
  from assms(1) have "\<not> is_text seg"
    using thinking_neq_text by (auto simp: is_thinking_def is_text_def)
  with assms show ?thesis
    by (simp add: grows_def counted_def chunk_of_def segment_tokens_def answered_def)
qed

lemma grows_text:
  assumes "is_text seg" and "trimmed_payload seg \<noteq> []"
    and "enc (trimmed_payload seg) = Some tokens"
    and "chunks st' = chunks st @
           [text_chunk (trimmed_payload seg) (resolved_role m) (int (length tokens))]"
    and "thinking_tokens (stats st') = thinking_tokens (stats st)"
    and "user_tokens (stats st') = user_tokens (stats st) +
           (if resolved_role m = u ''user'' then int (length tokens) else 0)"
    and "model_tokens (stats st') = model_tokens (stats st) +
           (if resolved_role m = u ''user'' then 0 else int (length tokens))"
    and "message_count (stats st') = message_count (stats st)"
    and "has_thinking (stats st') = has_thinking (stats st)"
  shows "grows enc 0 st st' [(m, seg)]"
proof -
  from assms(1) have "\<not> is_thinking seg"
    using thinking_neq_text by (auto simp: is_thinking_def is_text_def)
  with assms resolved_role_cases [of m] user_neq_model show ?thesis
    by (auto simp: grows_def counted_def chunk_of_def segment_tokens_def answered_def)
qed

lemma process_segment_grows:
  assumes "process_segment enc (resolved_role m) st seg = Inr st'"
  shows "grows enc 0 st st' [(m, seg)]"
proof -
  from assms obtain ty where ty: "field seg (u ''type'') = Some ty"
    by (auto simp: process_segment_def py_getitem_Inr split: sum.splits)
  then have get: "py_getitem seg (u ''type'') = Inr ty"
    by (simp add: py_getitem_Inr)
  consider (thinking_seg) "ty = JStr (u ''thinking'')" | (text_seg) "ty = JStr (u ''text'')"
    | (other_seg) "ty \<noteq> JStr (u ''thinking'')" "ty \<noteq> JStr (u ''text'')"
    by blast
  then show ?thesis
  proof cases
    case thinking_seg
    with ty have variant: "is_thinking seg" by (simp add: is_thinking_def)
    from assms get thinking_seg obtain v tx where
      v: "py_get seg (u ''thinking'') (JStr []) = Inr v" and
      tx: "py_strip v = Inr tx"
      by (auto simp: process_segment_def split: sum.splits)
    from v tx have "tx = trimmed_field (u ''thinking'') seg" by (rule py_get_strip)
    with variant have payload: "tx = trimmed_payload seg" by (simp add: trimmed_payload_def)
    show ?thesis
    proof (cases "tx = []")
      case True
      with assms get thinking_seg v tx have "st' = st"
        by (simp add: process_segment_def)
      moreover from True payload have "\<not> counted seg" by (simp add: counted_def)
      ultimately show ?thesis by (simp add: grows_skip)
    next
      case False
      with assms get thinking_seg v tx obtain n where n: "count_tokens enc tx = Inr n"
        by (auto simp: process_segment_def Let_def split: sum.splits)
      from count_tokens_Inr [OF n False] obtain tokens where
        tokens: "enc tx = Some tokens" "n = int (length tokens)"
        by blast
      with False assms get thinking_seg v tx payload n show ?thesis
        by (intro grows_thinking [OF variant, where tokens = tokens])
          (auto simp: process_segment_def Let_def)
    qed
  next
    case text_seg
    with ty have variant: "is_text seg" by (simp add: is_text_def)
    from text_seg have nt: "ty \<noteq> JStr (u ''thinking'')"
      using thinking_neq_text by auto
    from ty nt have "\<not> is_thinking seg" by (simp add: is_thinking_def)
    from assms get text_seg nt obtain v tx where
      v: "py_get seg (u ''text'') (JStr []) = Inr v" and
      tx: "py_strip v = Inr tx"
      by (auto simp: process_segment_def split: sum.splits)
    from v tx have "tx = trimmed_field (u ''text'') seg" by (rule py_get_strip)
    with variant \<open>\<not> is_thinking seg\<close> have payload: "tx = trimmed_payload seg"
      by (simp add: trimmed_payload_def)
    show ?thesis
    proof (cases "tx = []")
      case True
      with assms get text_seg nt v tx have "st' = st"
        by (simp add: process_segment_def)
      moreover from True payload have "\<not> counted seg" by (simp add: counted_def)
      ultimately show ?thesis by (simp add: grows_skip)
    next
      case False
      with assms get text_seg nt v tx obtain n where n: "count_tokens enc tx = Inr n"
        by (auto simp: process_segment_def Let_def split: sum.splits)
      from count_tokens_Inr [OF n False] obtain tokens where
        tokens: "enc tx = Some tokens" "n = int (length tokens)"
        by blast
      with False assms get text_seg nt v tx payload n show ?thesis
        by (intro grows_text [OF variant, where tokens = tokens])
          (auto simp: process_segment_def Let_def split: if_splits)
    qed
  next
    case other_seg
    with assms get have "st' = st" by (simp add: process_segment_def)
    moreover from other_seg ty have "\<not> counted seg"
      by (simp add: counted_def trimmed_payload_def is_thinking_def is_text_def)
    ultimately show ?thesis by (simp add: grows_skip)
  qed
qed

lemma segments_loop_grows:
  "segments_loop enc (resolved_role m) st segs = Inr st' \<Longrightarrow>
   grows enc 0 st st' (map (Pair m) segs)"
proof (induction segs arbitrary: st)
  case Nil
  then show ?case by (simp add: grows_refl)
next
  case (Cons seg rest)
  from Cons.prems obtain st1 where
    one: "process_segment enc (resolved_role m) st seg = Inr st1" and
    more: "segments_loop enc (resolved_role m) st1 rest = Inr st'"
    by (auto split: sum.splits)
  from one have "grows enc 0 st st1 [(m, seg)]" by (rule process_segment_grows)
  moreover from more have "grows enc 0 st1 st' (map (Pair m) rest)" by (rule Cons.IH)
  ultimately have "grows enc (0 + 0) st st' ([(m, seg)] @ map (Pair m) rest)"
    by (rule grows_trans)
  then show ?case by simp
qed


lemma segments_loop_head:
  assumes "segments_loop enc role st xs = Inr st'" and "xs \<noteq> []"
  shows "\<exists>kvs. hd xs = JObj kvs"
proof -
  from assms obtain x rest where xs: "xs = x # rest" by (cases xs) auto
  with assms(1) obtain ty where "py_getitem x (u ''type'') = Inr ty"
    by (auto simp: process_segment_def split: sum.splits)
  then obtain kvs where "x = JObj kvs" by (cases x) auto
  with xs show ?thesis by simp
qed

lemma messages_loop_head:
  assumes "messages_loop enc st xs = Inr st'" and "xs \<noteq> []"
  shows "\<exists>kvs. hd xs = JObj kvs"
proof -
  from assms obtain x rest where xs: "xs = x # rest" by (cases xs) auto
  with assms(1) obtain sender where "py_getitem x (u ''sender'') = Inr sender"
    by (auto simp: process_message_def split: sum.splits)
  then obtain kvs where "x = JObj kvs" by (cases x) auto
  with xs show ?thesis by simp
qed

lemma iterated_elements:
  assumes "py_get x k (JArr []) = Inr v" and "py_iter v = Inr xs"
    and "xs \<noteq> [] \<Longrightarrow> \<exists>kvs. hd xs = JObj kvs"
  shows "xs = (case field x k of Some (JArr ys) \<Rightarrow> ys | _ \<Rightarrow> [])"
proof -
  from assms(1) obtain kvs where x: "x = JObj kvs" by (cases x) auto
  with assms(1) have v: "v = (case map_of kvs k of None \<Rightarrow> JArr [] | Some w \<Rightarrow> w)"
    by simp
  show ?thesis
  proof (cases v)
    case (JArr ys)
    with assms(2) have "xs = ys" by simp
    with JArr v x show ?thesis by (auto split: option.splits)
  next
    case (JObj kvs')
    with assms(2) have xs: "xs = map (\<lambda>kv. JStr (fst kv)) kvs'" by simp
    with assms(3) have "kvs' = []" by (cases kvs') auto
    with xs JObj v x show ?thesis by (auto split: option.splits)
  next
    case (JStr s)
    with assms(2) have xs: "xs = map (\<lambda>c. JStr [c]) s" by simp
    with assms(3) have "s = []" by (cases s) auto
    with xs JStr v x show ?thesis by (auto split: option.splits)
  qed (use assms(2) in auto)
qed

lemma process_message_grows:
  assumes "process_message enc st msg = Inr st'"
  shows "grows enc 1 st st' (map (Pair msg) (msg_segments msg))"
proof -
  let ?st1 = "st\<lparr>stats := (stats st)\<lparr>message_count := message_count (stats st) + 1\<rparr>\<rparr>"
  from assms obtain sender where sender: "py_getitem msg (u ''sender'') = Inr sender"
    by (auto simp: process_message_def split: sum.splits)
  then have "field msg (u ''sender'') = Some sender" by (simp add: py_getitem_Inr)
  then have role: "(if sender = JStr (u ''human'') then u ''user'' else u ''model'') =
      resolved_role msg"
    by (simp add: resolved_role_def)
  from assms sender role obtain content segs where
    content: "py_get msg (u ''content'') (JArr []) = Inr content" and
    segs: "py_iter content = Inr segs" and
    run: "segments_loop enc (resolved_role msg) ?st1 segs = Inr st'"
    by (auto simp: process_message_def Let_def split: sum.splits)
  from content segs segments_loop_head [OF run] have "segs = msg_segments msg"
    unfolding msg_segments_def by (rule iterated_elements)
  with run have "grows enc 0 ?st1 st' (map (Pair msg) (msg_segments msg))"
    by (simp add: segments_loop_grows)
  then show ?thesis by (simp add: grows_def)
qed

lemma messages_loop_grows:
  "messages_loop enc st msgs = Inr st' \<Longrightarrow>
   grows enc (length msgs) st st' (concat (map (\<lambda>m. map (Pair m) (msg_segments m)) msgs))"
proof (induction msgs arbitrary: st)
  case Nil
  then show ?case by (simp add: grows_refl)
next
  case (Cons msg rest)
  from Cons.prems obtain st1 where
    one: "process_message enc st msg = Inr st1" and
    more: "messages_loop enc st1 rest = Inr st'"
    by (auto split: sum.splits)
  from one have "grows enc 1 st st1 (map (Pair msg) (msg_segments msg))"
    by (rule process_message_grows)
  moreover from more have
    "grows enc (length rest) st1 st' (concat (map (\<lambda>m. map (Pair m) (msg_segments m)) rest))"
    by (rule Cons.IH)
  ultimately have "grows enc (1 + length rest) st st'
      (map (Pair msg) (msg_segments msg) @
       concat (map (\<lambda>m. map (Pair m) (msg_segments m)) rest))"
    by (rule grows_trans)
  then show ?case by simp
qed

lemma convert_grows:
  assumes "convert_claude_to_gemini enc source = Inr (doc, ts)"
  shows "\<exists>st. doc = converted (chunks st) \<and> ts = stats st \<and>
           grows enc (length (doc_messages source)) conv_state_init st (encounter source)"
proof -
  from assms obtain v msgs st where
    v: "py_get source (u ''chat_messages'') (JArr []) = Inr v" and
    msgs: "py_iter v = Inr msgs" and
    run: "messages_loop enc conv_state_init msgs = Inr st" and
    out: "doc = converted (chunks st)" "ts = stats st"
    by (auto simp: convert_claude_to_gemini_def split: if_splits sum.splits)
  from v msgs messages_loop_head [OF run] have "msgs = doc_messages source"
    unfolding doc_messages_def by (rule iterated_elements)
  with run have "grows enc (length (doc_messages source)) conv_state_init st (encounter source)"
    unfolding encounter_def by (simp add: messages_loop_grows)
  with out show ?thesis by blast
qed

lemma doc_chunks_converted: "doc_chunks (converted cs) = cs"
  by (simp add: doc_chunks_def converted_def u_def)

lemma convert_chunks:
  assumes "convert_claude_to_gemini enc source = Inr (doc, ts)"
  shows "doc_chunks doc = map (chunk_of enc) (counted_segments source)"
proof -
  from convert_grows [OF assms] obtain st where
    "doc = converted (chunks st)" and
    "grows enc (length (doc_messages source)) conv_state_init st (encounter source)"
    by blast
  then show ?thesis
    by (simp add: grows_def doc_chunks_converted counted_segments_def conv_state_init_def)
qed


lemma thinking_chunk_fields:
  "field (thinking_chunk t r n) (u ''role'') = Some (JStr r)"
  "field (thinking_chunk t r n) (u ''finishReason'') = None"
  "field (thinking_chunk t r n) (u ''isThought'') = Some (JBool True)"
  "field (thinking_chunk t r n) (u ''text'') = Some (JStr t)"
  "field (thinking_chunk t r n) (u ''tokenCount'') = Some (JInt n)"
  by (simp_all add: thinking_chunk_def u_def)

lemma text_chunk_fields:
  "field (text_chunk t r n) (u ''role'') = Some (JStr r)"
  "field (text_chunk t r n) (u ''finishReason'') =
     (if r = u ''model'' then Some (JStr (u ''STOP'')) else None)"
  "field (text_chunk t r n) (u ''isThought'') = None"
  "field (text_chunk t r n) (u ''text'') = Some (JStr t)"
  "field (text_chunk t r n) (u ''tokenCount'') = Some (JInt n)"
  by (simp_all add: text_chunk_def u_def)

section \<open>Roles and finish reasons\<close>

text \<open>
  Claim C1. After a successful conversion the chunks correspond, one to one and in order,
  to the counted segments. The role of each chunk comes from the sender of the message
  of its segment: \<open>user\<close> when the sender is \<open>human\<close>, \<open>model\<close> for any other sender.
  \<open>finishReason\<close> is \<open>STOP\<close> exactly on the chunks with role \<open>model\<close> that do not come
  from a thinking segment, and is absent otherwise; a chunk from a thinking segment
  carries \<open>isThought: true\<close> and no \<open>finishReason\<close>, whatever its role, and no other
  chunk carries \<open>isThought\<close>.
\<close>

theorem chunk_role_and_finish_reason:
  assumes "convert_claude_to_gemini enc source_data = Inr (doc, ts)"
  shows "list_all2
     (\<lambda>chunk (msg, seg).
        field chunk (u ''role'') =
          Some (JStr (if field msg (u ''sender'') = Some (JStr (u ''human''))
                      then u ''user'' else u ''model'')) \<and>
        (field chunk (u ''finishReason'') = Some (JStr (u ''STOP'')) \<longleftrightarrow>
           field chunk (u ''role'') = Some (JStr (u ''model'')) \<and> \<not> is_thinking seg) \<and>
        (field chunk (u ''finishReason'') = None \<or>
           field chunk (u ''finishReason'') = Some (JStr (u ''STOP''))) \<and>
        (is_thinking seg \<longrightarrow>
           field chunk (u ''isThought'') = Some (JBool True) \<and>
           field chunk (u ''finishReason'') = None) \<and>
        (\<not> is_thinking seg \<longrightarrow> field chunk (u ''isThought'') = None))
     (doc_chunks doc) (counted_segments source_data)"
proof -
  have "doc_chunks doc = map (chunk_of enc) (counted_segments source_data)"
    using assms by (rule convert_chunks)
  then show ?thesis
    by (simp add: list_all2_map1 list_all2_same chunk_of_def resolved_role_def
        thinking_chunk_fields text_chunk_fields split_beta)
qed

theorem chunk_role_and_finish_reason_witness:
  "convert_claude_to_gemini char_tokens example_source =
     Inr (converted example_chunks, example_stats) \<and>
   list_all2
     (\<lambda>chunk (msg, seg).
        field chunk (u ''role'') =
          Some (JStr (if field msg (u ''sender'') = Some (JStr (u ''human''))
                      then u ''user'' else u ''model'')) \<and>
        (field chunk (u ''finishReason'') = Some (JStr (u ''STOP'')) \<longleftrightarrow>
           field chunk (u ''role'') = Some (JStr (u ''model'')) \<and> \<not> is_thinking seg) \<and>
        (field chunk (u ''finishReason'') = None \<or>
           field chunk (u ''finishReason'') = Some (JStr (u ''STOP''))) \<and>
        (is_thinking seg \<longrightarrow>
           field chunk (u ''isThought'') = Some (JBool True) \<and>
           field chunk (u ''finishReason'') = None) \<and>
        (\<not> is_thinking seg \<longrightarrow> field chunk (u ''isThought'') = None))
     (doc_chunks (converted example_chunks)) (counted_segments example_source)"
  using chunk_role_and_finish_reason [OF example_converts] example_converts by simp

section \<open>Chunks follow the segments\<close>

lemma other_segment_skipped:
  assumes "py_getitem seg (u ''type'') = Inr ty"
    and "ty \<noteq> JStr (u ''text'')" and "ty \<noteq> JStr (u ''thinking'')"
  shows "process_segment enc role st seg = Inr st"
  using assms by (simp add: process_segment_def)

text \<open>
  Claim C2. For a document that converts, there are no more chunks than text and
  thinking segments that are non-empty after trimming; the chunks are those of the
  counted segments in encounter order (messages in input order, the segments of a
  message in input order, thinking and text as they come); and a segment whose type is
  neither \<open>text\<close> nor \<open>thinking\<close> leaves the chunks and every statistics field as they
  were.
\<close>

theorem chunks_follow_segments:
  assumes "convert_claude_to_gemini enc source_data = Inr (doc, ts)"
  shows "length (doc_chunks doc) \<le> length (counted_segments source_data) \<and>
         doc_chunks doc = map (chunk_of enc) (counted_segments source_data) \<and>
         (\<forall>role st seg ty.
            py_getitem seg (u ''type'') = Inr ty \<and>
            ty \<noteq> JStr (u ''text'') \<and> ty \<noteq> JStr (u ''thinking'') \<longrightarrow>
            process_segment enc role st seg = Inr st)"
proof -
  have "doc_chunks doc = map (chunk_of enc) (counted_segments source_data)"
    using assms by (rule convert_chunks)
  then show ?thesis
    by (simp add: other_segment_skipped)
qed

theorem chunks_follow_segments_witness:
  "convert_claude_to_gemini char_tokens example_source =
     Inr (converted example_chunks, example_stats) \<and>
   length (doc_chunks (converted example_chunks)) \<le> length (counted_segments example_source) \<and>
   doc_chunks (converted example_chunks) =
     map (chunk_of char_tokens) (counted_segments example_source) \<and>
   py_getitem (JObj [(u ''type'', JStr (u ''image''))]) (u ''type'') = Inr (JStr (u ''image'')) \<and>
   process_segment char_tokens (u ''user'') conv_state_init (JObj [(u ''type'', JStr (u ''image''))]) =
     Inr conv_state_init"
proof -
  have get: "py_getitem (JObj [(u ''type'', JStr (u ''image''))]) (u ''type'') =
      Inr (JStr (u ''image''))"
    by simp
  have other: "JStr (u ''image'') \<noteq> JStr (u ''text'')" "JStr (u ''image'') \<noteq> JStr (u ''thinking'')"
    by (simp_all add: u_def)
  from chunks_follow_segments [OF example_converts] get other example_converts
  show ?thesis by blast
qed

section \<open>The statistics against their reference definitions\<close>

text \<open>
  Claim C4. After a successful conversion, \<open>message_count\<close> is the number of messages
  of the document; \<open>thinking_tokens\<close> is the sum of the token counts of the counted
  thinking segments; \<open>user_tokens\<close> and \<open>model_tokens\<close> are the sums of the token counts
  of the counted text segments of the messages whose resolved role is \<open>user\<close> and
  \<open>model\<close>; and \<open>has_thinking\<close> holds exactly when some thinking segment is non-empty
  after trimming. The tokenizer has given tokens for every counted segment, so each of
  these token counts is the number of tokens of the segment's trimmed text.
\<close>

theorem statistics_match_reference:
  assumes "convert_claude_to_gemini enc source_data = Inr (doc, ts)"
  shows "message_count ts = ref_message_count source_data \<and>
         thinking_tokens ts = ref_thinking_tokens enc source_data \<and>
         user_tokens ts = ref_user_tokens enc source_data \<and>
         model_tokens ts = ref_model_tokens enc source_data \<and>
         has_thinking ts = ref_has_thinking source_data \<and>
         list_all (answered enc) (counted_segments source_data)"
proof -
  from convert_grows [OF assms] obtain st where
    ts: "ts = stats st" and
    g: "grows enc (length (doc_messages source_data)) conv_state_init st (encounter source_data)"
    by blast
  have init: "stats conv_state_init = token_stats_init"
    by (simp add: conv_state_init_def)
  from g ts init have "message_count ts = ref_message_count source_data"
    by (simp add: grows_def ref_message_count_def token_stats_init_def)
  moreover from g ts init have "thinking_tokens ts = ref_thinking_tokens enc source_data"
    by (simp add: grows_def ref_thinking_tokens_def counted_segments_def token_stats_init_def)
  moreover from g ts init have "user_tokens ts = ref_user_tokens enc source_data"
    by (simp add: grows_def ref_user_tokens_def counted_segments_def token_stats_init_def)
  moreover from g ts init have "model_tokens ts = ref_model_tokens enc source_data"
    by (simp add: grows_def ref_model_tokens_def counted_segments_def token_stats_init_def)
  moreover from g ts init have "has_thinking ts = ref_has_thinking source_data"
    by (simp add: grows_def ref_has_thinking_def counted_segments_def token_stats_init_def)
  moreover from g have "list_all (answered enc) (counted_segments source_data)"
    by (simp add: grows_def counted_segments_def)
  ultimately show ?thesis by simp
qed

theorem statistics_match_reference_witness:
  "convert_claude_to_gemini char_tokens example_source =
     Inr (converted example_chunks, example_stats) \<and>
   ref_message_count example_source = 3 \<and>
   ref_thinking_tokens char_tokens example_source = 2 \<and>
   ref_user_tokens char_tokens example_source = 2 \<and>
   ref_model_tokens char_tokens example_source = 5 \<and>
   ref_has_thinking example_source \<and>
   list_all (answered char_tokens) (counted_segments example_source)"
  using statistics_match_reference [OF example_converts] example_converts
  by (simp add: example_stats_def)

section \<open>Trimming and blank segments\<close>

lemma strip_blank:
  assumes "\<forall>c\<in>set s. isspace c"
  shows "strip s = []"
proof -
  from assms have "dropWhile isspace s = []" by simp
  then have "strip s = rev (dropWhile isspace (rev []))" by (simp only: strip_def)
  then show ?thesis by simp
qed

lemma strip_nonblank:
  assumes "\<exists>c\<in>set s. \<not> isspace c"
  shows "strip s \<noteq> []"
proof -
  let ?d = "dropWhile isspace s"
  from assms have "?d \<noteq> []" by (simp add: dropWhile_eq_Nil_conv)
  then have "\<not> isspace (hd ?d)" by (rule hd_dropWhile)
  moreover from \<open>?d \<noteq> []\<close> have "hd ?d \<in> set (rev ?d)" by simp
  ultimately have "dropWhile isspace (rev ?d) \<noteq> []"
    by (auto simp: dropWhile_eq_Nil_conv)
  then show ?thesis by (simp add: strip_def)
qed

lemma strip_tail:
  "dropWhile isspace s = strip s @ rev (takeWhile isspace (rev (dropWhile isspace s)))"
proof -
  let ?r = "rev (dropWhile isspace s)"
  have "rev (takeWhile isspace ?r @ dropWhile isspace ?r) = rev ?r"
    by (simp only: takeWhile_dropWhile_id)
  then have "rev (dropWhile isspace ?r) @ rev (takeWhile isspace ?r) = dropWhile isspace s"
    by (simp only: rev_append rev_rev_ident)
  then show ?thesis by (simp only: strip_def)
qed

lemma strip_decompose:
  "\<exists>a b. s = a @ strip s @ b \<and> (\<forall>c\<in>set a. isspace c) \<and> (\<forall>c\<in>set b. isspace c)"
proof -
  let ?a = "takeWhile isspace s"
  let ?b = "rev (takeWhile isspace (rev (dropWhile isspace s)))"
  have "s = ?a @ dropWhile isspace s" by simp
  with strip_tail [of s] have "s = ?a @ strip s @ ?b" by simp
  moreover have "\<forall>c\<in>set ?a. isspace c" by (auto dest: set_takeWhileD)
  moreover have "\<forall>c\<in>set ?b. isspace c" by (auto dest: set_takeWhileD)
  ultimately show ?thesis by blast
qed

lemma strip_ends:
  assumes "strip s \<noteq> []"
  shows "\<not> isspace (hd (strip s)) \<and> \<not> isspace (last (strip s))"
proof -
  let ?d = "dropWhile isspace s"
  let ?e = "dropWhile isspace (rev ?d)"
  from assms have e: "?e \<noteq> []" by (simp only: strip_def rev_is_Nil_conv not_False_eq_True)
  have d: "?d \<noteq> []"
  proof
    assume empty: "?d = []"
    from e show False unfolding empty by simp
  qed
  have "last (strip s) = hd ?e" unfolding strip_def by (rule last_rev)
  moreover from e have "\<not> isspace (hd ?e)" by (rule hd_dropWhile)
  ultimately have last: "\<not> isspace (last (strip s))" by simp
  from d have nd: "\<not> isspace (hd ?d)" by (rule hd_dropWhile)
  from assms strip_tail [of s] have "hd ?d = hd (strip s)" by (metis hd_append2)
  with nd last show ?thesis by simp
qed

lemma payload_value:
  assumes "field seg (u ''type'') = Some ty"
  shows "py_get seg k (JStr []) = Inr (case field seg k of None \<Rightarrow> JStr [] | Some v \<Rightarrow> v)"
  using assms by (cases seg) simp_all

lemma thinking_segment_step:
  assumes "field seg (u ''type'') = Some (JStr (u ''thinking''))"
    and "(case field seg (u ''thinking'') of None \<Rightarrow> JStr [] | Some v \<Rightarrow> v) = JStr s"
  shows "process_segment enc role st seg =
     (if strip s = [] then Inr st
      else case enc (strip s) of
        None \<Rightarrow> Inl EncodeError
      | Some tokens \<Rightarrow>
          Inr \<lparr>chunks = chunks st @ [thinking_chunk (strip s) role (int (length tokens))],
               stats = (stats st)
                 \<lparr>has_thinking := True,
                  total_tokens := total_tokens (stats st) + int (length tokens),
                  thinking_tokens := thinking_tokens (stats st) + int (length tokens)\<rparr>\<rparr>)"
proof -
  from assms(1) have "py_getitem seg (u ''type'') = Inr (JStr (u ''thinking''))"
    by (simp add: py_getitem_Inr)
  moreover from assms have "py_get seg (u ''thinking'') (JStr []) = Inr (JStr s)"
    by (simp add: payload_value)
  ultimately show ?thesis
    by (simp add: process_segment_def count_tokens_def Let_def split: option.splits)
qed

lemma text_segment_step:
  assumes "field seg (u ''type'') = Some (JStr (u ''text''))"
    and "(case field seg (u ''text'') of None \<Rightarrow> JStr [] | Some v \<Rightarrow> v) = JStr s"
  shows "process_segment enc role st seg =
     (if strip s = [] then Inr st
      else case enc (strip s) of
        None \<Rightarrow> Inl EncodeError
      | Some tokens \<Rightarrow>
          Inr \<lparr>chunks = chunks st @ [text_chunk (strip s) role (int (length tokens))],
               stats =
                 (if role = u ''user''
                  then (stats st)
                    \<lparr>total_tokens := total_tokens (stats st) + int (length tokens),
                     user_tokens := user_tokens (stats st) + int (length tokens)\<rparr>
                  else (stats st)
                    \<lparr>total_tokens := total_tokens (stats st) + int (length tokens),
                     model_tokens := model_tokens (stats st) + int (length tokens)\<rparr>)\<rparr>)"
proof -
  from assms(1) have "py_getitem seg (u ''type'') = Inr (JStr (u ''text''))"
    by (simp add: py_getitem_Inr)
  moreover from assms have "py_get seg (u ''text'') (JStr []) = Inr (JStr s)"
    by (simp add: payload_value)
  moreover have "u ''text'' \<noteq> u ''thinking''"
    using thinking_neq_text by simp
  ultimately show ?thesis
    by (simp add: process_segment_def count_tokens_def Let_def split: option.splits)
qed

lemma blank_segment_unchanged:
  assumes "k = u ''text'' \<or> k = u ''thinking''"
    and "field seg (u ''type'') = Some (JStr k)"
    and "field seg k = None \<or> (\<exists>s. field seg k = Some (JStr s) \<and> (\<forall>c\<in>set s. isspace c))"
  shows "process_segment enc role st seg = Inr st"
proof -
  from assms(3) obtain s where
    s: "(case field seg k of None \<Rightarrow> JStr [] | Some v \<Rightarrow> v) = JStr s" and
    blank: "\<forall>c\<in>set s. isspace c"
    by auto
  from blank have "strip s = []" by (rule strip_blank)
  with assms(1,2) s show ?thesis
    by (auto simp: text_segment_step thinking_segment_step)
qed

lemma nonblank_segment_chunk:
  assumes "k = u ''text'' \<or> k = u ''thinking''"
    and "field seg (u ''type'') = Some (JStr k)"
    and "field seg k = Some (JStr s)" and "\<exists>c\<in>set s. \<not> isspace c"
    and "enc (strip s) = Some tokens"
  shows "\<exists>chunk st'. process_segment enc role st seg = Inr st' \<and>
           chunks st' = chunks st @ [chunk] \<and>
           field chunk (u ''text'') = Some (JStr (strip s)) \<and>
           field chunk (u ''tokenCount'') = Some (JInt (int (length tokens))) \<and>
           total_tokens (stats st') = total_tokens (stats st) + int (length tokens)"
proof -
  from assms(3) have s: "(case field seg k of None \<Rightarrow> JStr [] | Some v \<Rightarrow> v) = JStr s"
    by simp
  from assms(4) have full: "strip s \<noteq> []" by (rule strip_nonblank)
  from assms(1) show ?thesis
  proof
    assume k: "k = u ''text''"
    with assms(2,5) s full show ?thesis
      by (simp add: text_segment_step text_chunk_fields)
  next
    assume k: "k = u ''thinking''"
    with assms(2,5) s full show ?thesis
      by (simp add: thinking_segment_step thinking_chunk_fields)
  qed
qed

lemma nonblank_segment_refused:
  assumes "k = u ''text'' \<or> k = u ''thinking''"
    and "field seg (u ''type'') = Some (JStr k)"
    and "field seg k = Some (JStr s)" and "\<exists>c\<in>set s. \<not> isspace c"
    and "enc (strip s) = None"
  shows "process_segment enc role st seg = Inl EncodeError"
proof -
  from assms(3) have s: "(case field seg k of None \<Rightarrow> JStr [] | Some v \<Rightarrow> v) = JStr s"
    by simp
  from assms(4) have full: "strip s \<noteq> []" by (rule strip_nonblank)
  from assms(1) show ?thesis
  proof
    assume k: "k = u ''text''"
    with assms(2,5) s full show ?thesis
      by (simp add: text_segment_step)
  next
    assume k: "k = u ''thinking''"
    with assms(2,5) s full show ?thesis
      by (simp add: thinking_segment_step)
  qed
qed

text \<open>
  Claim C5. For a text or thinking segment (its payload is the field named like its
  type): when the payload is absent, empty or made of whitespace only, the segment
  leaves the chunks and all statistics unchanged. When the payload has a character that
  is not whitespace, the text used is the payload without its leading and trailing
  whitespace: it is the text the tokenizer is asked about; where the tokenizer gives
  tokens for it, it is the text of the one chunk appended and the tokens counted are
  its tokens; where the tokenizer refuses it, the segment ends with the tokenizer's
  error.
\<close>

theorem blank_segments_and_trimming:
  assumes "k = u ''text'' \<or> k = u ''thinking''"
    and "field seg (u ''type'') = Some (JStr k)"
  shows "(field seg k = None \<or> (\<exists>s. field seg k = Some (JStr s) \<and> (\<forall>c\<in>set s. isspace c)) \<longrightarrow>
            process_segment enc role st seg = Inr st) \<and>
         (\<forall>s. field seg k = Some (JStr s) \<and> (\<exists>c\<in>set s. \<not> isspace c) \<longrightarrow>
            (\<exists>a b. s = a @ strip s @ b \<and> (\<forall>c\<in>set a. isspace c) \<and> (\<forall>c\<in>set b. isspace c)) \<and>
            \<not> isspace (hd (strip s)) \<and> \<not> isspace (last (strip s)) \<and>
            (\<forall>tokens. enc (strip s) = Some tokens \<longrightarrow>
               (\<exists>chunk st'. process_segment enc role st seg = Inr st' \<and>
                  chunks st' = chunks st @ [chunk] \<and>
                  field chunk (u ''text'') = Some (JStr (strip s)) \<and>
                  field chunk (u ''tokenCount'') = Some (JInt (int (length tokens))) \<and>
                  total_tokens (stats st') = total_tokens (stats st) + int (length tokens))) \<and>
            (enc (strip s) = None \<longrightarrow> process_segment enc role st seg = Inl EncodeError))"
proof (intro conjI impI allI)
  assume "field seg k = None \<or> (\<exists>s. field seg k = Some (JStr s) \<and> (\<forall>c\<in>set s. isspace c))"
  with assms show "process_segment enc role st seg = Inr st"
    by (rule blank_segment_unchanged)
next
  fix s
  show "\<exists>a b. s = a @ strip s @ b \<and> (\<forall>c\<in>set a. isspace c) \<and> (\<forall>c\<in>set b. isspace c)"
    by (rule strip_decompose)
next
  fix s
  assume "field seg k = Some (JStr s) \<and> (\<exists>c\<in>set s. \<not> isspace c)"
  then have "strip s \<noteq> []" by (simp add: strip_nonblank)
  then show "\<not> isspace (hd (strip s))" by (simp add: strip_ends)
next
  fix s
  assume "field seg k = Some (JStr s) \<and> (\<exists>c\<in>set s. \<not> isspace c)"
  then have "strip s \<noteq> []" by (simp add: strip_nonblank)
  then show "\<not> isspace (last (strip s))" by (simp add: strip_ends)
next
  fix s tokens
  assume "field seg k = Some (JStr s) \<and> (\<exists>c\<in>set s. \<not> isspace c)"
    and "enc (strip s) = Some tokens"
  with assms show "\<exists>chunk st'. process_segment enc role st seg = Inr st' \<and>
                  chunks st' = chunks st @ [chunk] \<and>
                  field chunk (u ''text'') = Some (JStr (strip s)) \<and>
                  field chunk (u ''tokenCount'') = Some (JInt (int (length tokens))) \<and>
                  total_tokens (stats st') = total_tokens (stats st) + int (length tokens)"
    by (intro nonblank_segment_chunk) auto
next
  fix s
  assume "field seg k = Some (JStr s) \<and> (\<exists>c\<in>set s. \<not> isspace c)"
    and "enc (strip s) = None"
  with assms show "process_segment enc role st seg = Inl EncodeError"
    by (intro nonblank_segment_refused [of k seg s]) auto
qed

theorem blank_segments_and_trimming_witness:
  "field blank_segment (u ''type'') = Some (JStr (u ''text'')) \<and>
   field blank_segment (u ''text'') = Some (JStr (u ''   '')) \<and>
   list_all isspace (u ''   '') \<and>
   process_segment char_tokens (u ''model'') conv_state_init blank_segment = Inr conv_state_init \<and>
   field greeting_segment (u ''text'') = Some (JStr (u '' Hi '')) \<and>
   strip (u '' Hi '') = u ''Hi'' \<and>
   char_tokens (u ''Hi'') = Some (u ''Hi'') \<and>
   (\<exists>chunk st'.
      process_segment char_tokens (u ''model'') conv_state_init greeting_segment = Inr st' \<and>
      chunks st' = [chunk] \<and>
      field chunk (u ''text'') = Some (JStr (u ''Hi'')) \<and>
      field chunk (u ''tokenCount'') = Some (JInt 2) \<and>
      total_tokens (stats st') = 2) \<and>
   field special_segment (u ''text'') = Some (JStr (u ''<|endoftext|>'')) \<and>
   strict_tokens (strip (u ''<|endoftext|>'')) = None \<and>
   process_segment strict_tokens (u ''user'') conv_state_init special_segment = Inl EncodeError"
proof -
  have variant: "field blank_segment (u ''type'') = Some (JStr (u ''text''))"
    by (simp add: blank_segment_def u_def)
  have payload: "field blank_segment (u ''text'') = Some (JStr (u ''   ''))"
    by (simp add: blank_segment_def u_def)
  have blank: "\<forall>c\<in>set (u ''   ''). isspace c"
    by (simp add: u_def isspace_def)
  from blank_segments_and_trimming [OF disjI1 [OF refl] variant,
      of char_tokens "u ''model''" conv_state_init] payload blank
  have first: "process_segment char_tokens (u ''model'') conv_state_init blank_segment =
      Inr conv_state_init"
    by blast
  have variant2: "field greeting_segment (u ''type'') = Some (JStr (u ''text''))"
    by (simp add: greeting_segment_def u_def)
  have payload2: "field greeting_segment (u ''text'') = Some (JStr (u '' Hi ''))"
    by (simp add: greeting_segment_def u_def)
  have full2: "\<exists>c\<in>set (u '' Hi ''). \<not> isspace c"
    by (simp add: u_def isspace_def)
  have trimmed2: "strip (u '' Hi '') = u ''Hi''"
    by (simp add: strip_def u_def isspace_def)
  have tokens2: "char_tokens (strip (u '' Hi '')) = Some (u ''Hi'')"
    by (simp add: trimmed2 char_tokens_def)
  have two: "length (u ''Hi'') = 2"
    by (simp add: u_def)
  from blank_segments_and_trimming [OF disjI1 [OF refl] variant2,
      of char_tokens "u ''model''" conv_state_init] payload2 full2 tokens2
  have "\<exists>chunk st'.
      process_segment char_tokens (u ''model'') conv_state_init greeting_segment = Inr st' \<and>
      chunks st' = chunks conv_state_init @ [chunk] \<and>
      field chunk (u ''text'') = Some (JStr (strip (u '' Hi ''))) \<and>
      field chunk (u ''tokenCount'') = Some (JInt (int (length (u ''Hi'')))) \<and>
      total_tokens (stats st') = total_tokens (stats conv_state_init) + int (length (u ''Hi''))"
    by blast
  then have second: "\<exists>chunk st'.
      process_segment char_tokens (u ''model'') conv_state_init greeting_segment = Inr st' \<and>
      chunks st' = [chunk] \<and>
      field chunk (u ''text'') = Some (JStr (u ''Hi'')) \<and>
      field chunk (u ''tokenCount'') = Some (JInt 2) \<and>
      total_tokens (stats st') = 2"
    by (simp add: trimmed2 two conv_state_init_def token_stats_init_def)
  have variant3: "field special_segment (u ''type'') = Some (JStr (u ''text''))"
    by (simp add: special_segment_def u_def)
  have payload3: "field special_segment (u ''text'') = Some (JStr (u ''<|endoftext|>''))"
    by (simp add: special_segment_def u_def)
  have full3: "\<exists>c\<in>set (u ''<|endoftext|>''). \<not> isspace c"
    by (simp add: u_def isspace_def)
  have refused3: "strict_tokens (strip (u ''<|endoftext|>'')) = None"
    by (simp add: strict_tokens_def strip_def u_def isspace_def)
  from blank_segments_and_trimming [OF disjI1 [OF refl] variant3,
      of strict_tokens "u ''user''" conv_state_init] payload3 full3 refused3
  have third: "process_segment strict_tokens (u ''user'') conv_state_init special_segment =
      Inl EncodeError"
    by blast
  from variant payload blank first payload2 trimmed2 tokens2 second payload3 refused3 third
  show ?thesis by (simp add: list_all_iff)
qed

section \<open>The check of the input\<close>

lemma py_getitem_no_ValueError: "py_getitem x k \<noteq> Inl ValueError"
  by (cases x) (auto split: option.splits)

lemma py_get_no_ValueError: "py_get x k d \<noteq> Inl ValueError"
  by (cases x) auto

lemma py_iter_no_ValueError: "py_iter x \<noteq> Inl ValueError"
  by (cases x) auto

lemma py_strip_no_ValueError: "py_strip x \<noteq> Inl ValueError"
  by (cases x) auto

lemma count_tokens_no_ValueError: "count_tokens enc t \<noteq> Inl ValueError"
  by (simp add: count_tokens_def split: option.splits)

lemma process_segment_no_ValueError: "process_segment enc role st seg \<noteq> Inl ValueError"
  by (auto simp: process_segment_def Let_def py_getitem_no_ValueError py_get_no_ValueError
      py_strip_no_ValueError count_tokens_no_ValueError split: sum.splits)

lemma segments_loop_no_ValueError: "segments_loop enc role st segs \<noteq> Inl ValueError"
  by (induction segs arbitrary: st) (auto simp: process_segment_no_ValueError split: sum.splits)

lemma process_message_no_ValueError: "process_message enc st msg \<noteq> Inl ValueError"
  by (auto simp: process_message_def Let_def py_getitem_no_ValueError py_get_no_ValueError
      py_iter_no_ValueError segments_loop_no_ValueError split: sum.splits)

lemma messages_loop_no_ValueError: "messages_loop enc st msgs \<noteq> Inl ValueError"
  by (induction msgs arbitrary: st) (auto simp: process_message_no_ValueError split: sum.splits)

lemma is_claude_source_iff:
  "is_claude_source source \<longleftrightarrow>
     (\<exists>kvs. source = JObj kvs \<and> u ''chat_messages'' \<in> fst ` set kvs)"
  by (cases source) (auto simp: map_of_eq_None_iff)

text \<open>
  Claim C6. The conversion fails with the \<^verbatim>\<open>ValueError\<close> of line 80 (the specification's
  \<open>InvalidInputError\<close>) exactly when the input is not a mapping or is a mapping without
  the key \<open>chat_messages\<close>. The result is then the error alone, with neither document
  nor statistics, whatever else the input holds; and no mapping that has the key gets
  this error, whatever the tokenizer does: a text the tokenizer refuses ends the
  conversion with the tokenizer's error, not with this one.
\<close>

theorem invalid_input_iff:
  "convert_claude_to_gemini enc source_data = Inl ValueError \<longleftrightarrow>
     (\<nexists>kvs. source_data = JObj kvs) \<or>
     (\<exists>kvs. source_data = JObj kvs \<and> u ''chat_messages'' \<notin> fst ` set kvs)"
proof (cases "is_claude_source source_data")
  case True
  then have "convert_claude_to_gemini enc source_data \<noteq> Inl ValueError"
    by (auto simp: convert_claude_to_gemini_def py_get_no_ValueError py_iter_no_ValueError
        messages_loop_no_ValueError split: sum.splits)
  with True show ?thesis by (auto simp: is_claude_source_iff)
next
  case False
  then have "convert_claude_to_gemini enc source_data = Inl ValueError"
    by (simp add: convert_claude_to_gemini_def)
  with False show ?thesis by (auto simp: is_claude_source_iff)
qed

theorem invalid_input_iff_witness:
  "convert_claude_to_gemini char_tokens (JObj [(u ''name'', JStr (u ''demo''))]) = Inl ValueError \<and>
   convert_claude_to_gemini char_tokens (JArr []) = Inl ValueError \<and>
   convert_claude_to_gemini char_tokens example_source \<noteq> Inl ValueError \<and>
   convert_claude_to_gemini strict_tokens special_source \<noteq> Inl ValueError \<and>
   convert_claude_to_gemini strict_tokens special_source = Inl EncodeError"
proof -
  have refused: "convert_claude_to_gemini strict_tokens special_source = Inl EncodeError"
    by (simp add: special_source_def special_segment_def convert_claude_to_gemini_def
        process_message_def process_segment_def count_tokens_def strict_tokens_def
        conv_state_init_def strip_def isspace_def u_def Let_def)
  from invalid_input_iff [of char_tokens "JObj [(u ''name'', JStr (u ''demo''))]"]
    invalid_input_iff [of char_tokens "JArr []"]
    invalid_input_iff [of char_tokens example_source]
    invalid_input_iff [of strict_tokens special_source]
    refused
  show ?thesis by (simp add: u_def example_source_def special_source_def)
qed

section \<open>Strict and defaulted lookups\<close>

lemma messages_loop_append:
  "messages_loop enc st (pre @ rest) =
     (case messages_loop enc st pre of Inl e \<Rightarrow> Inl e | Inr st1 \<Rightarrow> messages_loop enc st1 rest)"
  by (induction pre arbitrary: st) (auto split: sum.splits)

lemma segments_loop_append:
  "segments_loop enc role st (pre @ rest) =
     (case segments_loop enc role st pre of
        Inl e \<Rightarrow> Inl e
      | Inr st1 \<Rightarrow> segments_loop enc role st1 rest)"
  by (induction pre arbitrary: st) (auto split: sum.splits)

lemma missing_sender:
  assumes "map_of kvs (u ''sender'') = None"
  shows "process_message enc st (JObj kvs) = Inl (KeyError (u ''sender''))"
  using assms by (simp add: process_message_def)

lemma missing_type:
  assumes "map_of kvs (u ''type'') = None"
  shows "process_segment enc role st (JObj kvs) = Inl (KeyError (u ''type''))"
  using assms by (simp add: process_segment_def)

lemma convert_list:
  assumes "map_of kvs (u ''chat_messages'') = Some (JArr msgs)"
  shows "convert_claude_to_gemini enc (JObj kvs) =
     (case messages_loop enc conv_state_init msgs of
        Inl e \<Rightarrow> Inl e
      | Inr st \<Rightarrow> Inr (converted (chunks st), stats st))"
  using assms by (simp add: convert_claude_to_gemini_def)

lemma process_message_list:
  assumes "map_of kvs (u ''sender'') = Some sender"
    and "map_of kvs (u ''content'') = Some (JArr segs)"
  shows "process_message enc st (JObj kvs) =
     segments_loop enc (resolved_role (JObj kvs))
       (st\<lparr>stats := (stats st)\<lparr>message_count := message_count (stats st) + 1\<rparr>\<rparr>) segs"
  using assms by (simp add: process_message_def resolved_role_def Let_def)

lemma missing_content:
  assumes "map_of kvs (u ''sender'') = Some sender"
    and "map_of kvs (u ''content'') = None"
  shows "process_message enc st (JObj kvs) =
     Inr (st\<lparr>stats := (stats st)\<lparr>message_count := message_count (stats st) + 1\<rparr>\<rparr>)"
  using assms by (simp add: process_message_def Let_def)

lemma missing_payload:
  assumes "map_of kvs (u ''type'') = Some (JStr k)"
    and "k = u ''text'' \<or> k = u ''thinking''"
    and "map_of kvs k = None"
  shows "process_segment enc role st (JObj kvs) = Inr st"
  using assms by (intro blank_segment_unchanged [of k]) auto

text \<open>
  Claim C7. A message without \<open>sender\<close>, reached after the messages before it went
  through, ends the conversion with \<^verbatim>\<open>KeyError\<close> (the specification's
  \<open>MalformedInputError\<close>); so does a segment without \<open>type\<close>, reached after the
  segments before it. A message without \<open>content\<close> is handled as one with no segments:
  it is counted and nothing else changes. A text or thinking segment without its
  payload field is handled as one with an empty payload: the state stays as it was.
\<close>

theorem strict_and_defaulted_lookups:
  "(map_of source_kvs (u ''chat_messages'') = Some (JArr (pre @ JObj msg_kvs # post)) \<and>
    messages_loop enc conv_state_init pre = Inr st1 \<and>
    map_of msg_kvs (u ''sender'') = None \<longrightarrow>
      convert_claude_to_gemini enc (JObj source_kvs) = Inl (KeyError (u ''sender''))) \<and>
   (map_of source_kvs' (u ''chat_messages'') = Some (JArr (pre' @ JObj msg_kvs' # post')) \<and>
    messages_loop enc conv_state_init pre' = Inr st2 \<and>
    map_of msg_kvs' (u ''sender'') = Some sender \<and>
    map_of msg_kvs' (u ''content'') = Some (JArr (before @ JObj seg_kvs # after)) \<and>
    segments_loop enc (resolved_role (JObj msg_kvs'))
      (st2\<lparr>stats := (stats st2)\<lparr>message_count := message_count (stats st2) + 1\<rparr>\<rparr>) before =
      Inr st3 \<and>
    map_of seg_kvs (u ''type'') = None \<longrightarrow>
      convert_claude_to_gemini enc (JObj source_kvs') = Inl (KeyError (u ''type''))) \<and>
   (map_of m_kvs (u ''sender'') = Some sender' \<and> map_of m_kvs (u ''content'') = None \<longrightarrow>
      process_message enc st (JObj m_kvs) =
        Inr (st\<lparr>stats := (stats st)\<lparr>message_count := message_count (stats st) + 1\<rparr>\<rparr>)) \<and>
   (map_of s_kvs (u ''type'') = Some (JStr k) \<and> (k = u ''text'' \<or> k = u ''thinking'') \<and>
    map_of s_kvs k = None \<longrightarrow>
      process_segment enc role st' (JObj s_kvs) = Inr st')"
proof (intro conjI impI)
  assume a: "map_of source_kvs (u ''chat_messages'') = Some (JArr (pre @ JObj msg_kvs # post)) \<and>
    messages_loop enc conv_state_init pre = Inr st1 \<and>
    map_of msg_kvs (u ''sender'') = None"
  then have "messages_loop enc conv_state_init (pre @ JObj msg_kvs # post) =
      Inl (KeyError (u ''sender''))"
    by (simp add: messages_loop_append missing_sender)
  with a show "convert_claude_to_gemini enc (JObj source_kvs) = Inl (KeyError (u ''sender''))"
    by (simp add: convert_list)
next
  assume a: "map_of source_kvs' (u ''chat_messages'') = Some (JArr (pre' @ JObj msg_kvs' # post')) \<and>
    messages_loop enc conv_state_init pre' = Inr st2 \<and>
    map_of msg_kvs' (u ''sender'') = Some sender \<and>
    map_of msg_kvs' (u ''content'') = Some (JArr (before @ JObj seg_kvs # after)) \<and>
    segments_loop enc (resolved_role (JObj msg_kvs'))
      (st2\<lparr>stats := (stats st2)\<lparr>message_count := message_count (stats st2) + 1\<rparr>\<rparr>) before =
      Inr st3 \<and>
    map_of seg_kvs (u ''type'') = None"
  then have "process_message enc st2 (JObj msg_kvs') = Inl (KeyError (u ''type''))"
    by (simp add: process_message_list segments_loop_append missing_type)
  with a have "messages_loop enc conv_state_init (pre' @ JObj msg_kvs' # post') =
      Inl (KeyError (u ''type''))"
    by (simp add: messages_loop_append)
  with a show "convert_claude_to_gemini enc (JObj source_kvs') = Inl (KeyError (u ''type''))"
    by (simp add: convert_list)
next
  assume "map_of m_kvs (u ''sender'') = Some sender' \<and> map_of m_kvs (u ''content'') = None"
  then show "process_message enc st (JObj m_kvs) =
        Inr (st\<lparr>stats := (stats st)\<lparr>message_count := message_count (stats st) + 1\<rparr>\<rparr>)"
    by (simp add: missing_content)
next
  assume "map_of s_kvs (u ''type'') = Some (JStr k) \<and> (k = u ''text'' \<or> k = u ''thinking'') \<and>
    map_of s_kvs k = None"
  then show "process_segment enc role st' (JObj s_kvs) = Inr st'"
    by (simp add: missing_payload)
qed

theorem strict_and_defaulted_lookups_witness:
  "convert_claude_to_gemini char_tokens
     (JObj [(u ''chat_messages'', JArr [JObj [(u ''content'', JArr [])]])]) =
     Inl (KeyError (u ''sender'')) \<and>
   convert_claude_to_gemini char_tokens
     (JObj [(u ''chat_messages'', JArr
        [JObj [(u ''sender'', JStr (u ''human'')),
               (u ''content'', JArr [JObj [(u ''text'', JStr (u ''x''))]])]])]) =
     Inl (KeyError (u ''type'')) \<and>
   process_message char_tokens conv_state_init (JObj [(u ''sender'', JStr (u ''human''))]) =
     Inr (conv_state_init\<lparr>stats := token_stats_init\<lparr>message_count := 1\<rparr>\<rparr>) \<and>
   process_segment char_tokens (u ''user'') conv_state_init
     (JObj [(u ''type'', JStr (u ''text''))]) = Inr conv_state_init"
  using strict_and_defaulted_lookups
    [where enc = char_tokens
       and source_kvs = "[(u ''chat_messages'', JArr [JObj [(u ''content'', JArr [])]])]"
       and pre = "[]" and msg_kvs = "[(u ''content'', JArr [])]" and post = "[]"
       and ?st1.0 = conv_state_init
       and source_kvs' = "[(u ''chat_messages'', JArr
              [JObj [(u ''sender'', JStr (u ''human'')),
                     (u ''content'', JArr [JObj [(u ''text'', JStr (u ''x''))]])]])]"
       and pre' = "[]" and post' = "[]" and ?st2.0 = conv_state_init
       and msg_kvs' = "[(u ''sender'', JStr (u ''human'')),
                       (u ''content'', JArr [JObj [(u ''text'', JStr (u ''x''))]])]"
       and sender = "JStr (u ''human'')"
       and before = "[]" and after = "[]" and seg_kvs = "[(u ''text'', JStr (u ''x''))]"
       and ?st3.0 = "conv_state_init\<lparr>stats := token_stats_init\<lparr>message_count := 1\<rparr>\<rparr>"
       and m_kvs = "[(u ''sender'', JStr (u ''human''))]" and sender' = "JStr (u ''human'')"
       and st = conv_state_init
       and s_kvs = "[(u ''type'', JStr (u ''text''))]" and k = "u ''text''"
       and role = "u ''user''" and st' = conv_state_init]
  by (simp add: u_def conv_state_init_def token_stats_init_def)

section \<open>The fixed envelope\<close>

text \<open>
  Claim C8. Every converted document is the same envelope around its chunks: the
  \<open>runSettings\<close> with the literal values below, an empty \<open>systemInstruction\<close>, and a
  \<open>chunkedPrompt\<close> made of the chunks and the one pending input with an empty text and
  role \<open>user\<close>. Nothing of it depends on the input.
\<close>

theorem fixed_envelope:
  assumes "convert_claude_to_gemini enc source_data = Inr (doc, ts)"
  shows "doc = JObj
     [(u ''runSettings'', JObj
        [(u ''temperature'', JFloat 1.0),
         (u ''model'', JStr (u ''models/gemini-2.5-pro-preview-03-25'')),
         (u ''topP'', JFloat 0.95),
         (u ''topK'', JInt 64),
         (u ''maxOutputTokens'', JInt 65536),
         (u ''safetySettings'', JArr
            [JObj [(u ''category'', JStr (u ''HARM_CATEGORY_HARASSMENT'')),
                   (u ''threshold'', JStr (u ''OFF''))],
             JObj [(u ''category'', JStr (u ''HARM_CATEGORY_HATE_SPEECH'')),
                   (u ''threshold'', JStr (u ''OFF''))],
             JObj [(u ''category'', JStr (u ''HARM_CATEGORY_SEXUALLY_EXPLICIT'')),
                   (u ''threshold'', JStr (u ''OFF''))],
             JObj [(u ''category'', JStr (u ''HARM_CATEGORY_DANGEROUS_CONTENT'')),
                   (u ''threshold'', JStr (u ''OFF''))]]),
         (u ''responseMimeType'', JStr (u ''text/plain'')),
         (u ''enableCodeExecution'', JBool False),
         (u ''enableEnhancedCivicAnswers'', JBool True),
         (u ''enableSearchAsATool'', JBool False),
         (u ''enableBrowseAsATool'', JBool False),
         (u ''enableAutoFunctionResponse'', JBool False)]),
      (u ''systemInstruction'', JObj []),
      (u ''chunkedPrompt'', JObj
         [(u ''chunks'', JArr (doc_chunks doc)),
          (u ''pendingInputs'', JArr
             [JObj [(u ''text'', JStr []), (u ''role'', JStr (u ''user''))]])])]"
proof -
  from assms obtain cs where doc: "doc = converted cs"
    by (auto simp: convert_claude_to_gemini_def split: if_splits sum.splits)
  then have "doc_chunks doc = cs" by (simp add: doc_chunks_converted)
  with doc show ?thesis by (simp add: converted_def run_settings_def)
qed

theorem fixed_envelope_witness:
  "convert_claude_to_gemini char_tokens example_source =
     Inr (converted example_chunks, example_stats) \<and>
   field (converted example_chunks) (u ''systemInstruction'') = Some (JObj []) \<and>
   field (converted example_chunks) (u ''runSettings'') = Some run_settings"
  using example_converts
    arg_cong [OF fixed_envelope [OF example_converts],
      of "\<lambda>d. field d (u ''systemInstruction'')"]
    arg_cong [OF fixed_envelope [OF example_converts],
      of "\<lambda>d. field d (u ''runSettings'')"]
  by (simp add: u_def run_settings_def)

section \<open>The name of the output file\<close>

text \<open>
  Where \<^verbatim>\<open>.json\<close> occurs in the name at its end only, or not at all, the code gives the
  name the specification describes.
\<close>

lemma replace_from_absent:
  assumes "old \<noteq> []" and "\<nexists>a b. s = a @ old @ b"
  shows "replace_from old new s = s"
  using assms
proof (induction s)
  case Nil
  then show ?case by simp
next
  case (Cons c cs)
  have "take (length old) (c # cs) \<noteq> old"
  proof
    assume t: "take (length old) (c # cs) = old"
    have "take (length old) (c # cs) @ drop (length old) (c # cs) = c # cs"
      by (rule append_take_drop_id)
    then have "c # cs = [] @ old @ drop (length old) (c # cs)"
      unfolding t by simp
    with Cons.prems(2) show False by blast
  qed
  then have step: "replace_from old new (c # cs) = c # replace_from old new cs"
    by simp
  have "\<nexists>a b. cs = a @ old @ b"
  proof
    assume "\<exists>a b. cs = a @ old @ b"
    then obtain a b where "cs = a @ old @ b" by blast
    then have "c # cs = (c # a) @ old @ b" by simp
    with Cons.prems(2) show False by blast
  qed
  with Cons.prems(1) have "replace_from old new cs = cs" by (rule Cons.IH)
  with step show ?case by simp
qed

lemma replace_from_suffix_only:
  assumes "old \<noteq> []" and "\<forall>a b. base @ old = a @ old @ b \<longrightarrow> b = []"
  shows "replace_from old new (base @ old) = base @ new"
  using assms
proof (induction base)
  case Nil
  from Nil.prems(1) obtain c cs where old: "old = c # cs" by (cases old) auto
  have "replace_from old new (c # cs) = new @ replace_from old new (drop (length old) (c # cs))"
    using old by simp
  with old show ?case by simp
next
  case (Cons x xs)
  have "take (length old) (x # xs @ old) \<noteq> old"
  proof
    assume t: "take (length old) (x # xs @ old) = old"
    have "take (length old) (x # xs @ old) @ drop (length old) (x # xs @ old) = x # xs @ old"
      by (rule append_take_drop_id)
    then have "(x # xs) @ old = [] @ old @ drop (length old) (x # xs @ old)"
      unfolding t by simp
    with Cons.prems(2) have "drop (length old) (x # xs @ old) = []" by blast
    then show False by simp
  qed
  then have step: "replace_from old new ((x # xs) @ old) = x # replace_from old new (xs @ old)"
    by simp
  have "\<forall>a b. xs @ old = a @ old @ b \<longrightarrow> b = []"
  proof (intro allI impI)
    fix a b
    assume "xs @ old = a @ old @ b"
    then have "(x # xs) @ old = (x # a) @ old @ b" by simp
    with Cons.prems(2) show "b = []" by blast
  qed
  with Cons.prems(1) have "replace_from old new (xs @ old) = xs @ new" by (rule Cons.IH)
  with step show ?case by simp
qed

lemma endswith_iff: "endswith s suffix \<longleftrightarrow> (\<exists>base. s = base @ suffix)"
proof
  assume "endswith s suffix"
  then have "drop (length s - length suffix) s = suffix"
    by (simp add: endswith_def)
  with append_take_drop_id [of "length s - length suffix" s]
  have "s = take (length s - length suffix) s @ suffix"
    by simp
  then show "\<exists>base. s = base @ suffix" ..
next
  assume "\<exists>base. s = base @ suffix"
  then show "endswith s suffix" by (auto simp: endswith_def)
qed

lemma gemini_suffix: "u ''_gemini.json'' = u ''_gemini'' @ u ''.json''"
  by (simp add: u_def)

lemma output_filename_single_suffix:
  assumes "\<forall>a b. name = a @ u ''.json'' @ b \<longrightarrow> b = []"
  shows "output_filename name = ref_output_filename name"
proof (cases "endswith name (u ''.json'')")
  case True
  then obtain base where name: "name = base @ u ''.json''"
    by (auto simp: endswith_iff)
  have ne: "u ''.json'' \<noteq> []" by (simp add: u_def)
  from assms name have "replace_from (u ''.json'') (u ''_gemini.json'') (base @ u ''.json'') =
      base @ u ''_gemini.json''"
    by (intro replace_from_suffix_only [OF ne]) simp
  with ne name have "replace name (u ''.json'') (u ''_gemini.json'') = base @ u ''_gemini.json''"
    by (simp add: replace_def)
  moreover have "endswith (base @ u ''_gemini.json'') (u ''_gemini.json'')"
    by (auto simp: endswith_iff)
  moreover from True name have "ref_output_filename name = base @ u ''_gemini.json''"
    by (simp add: ref_output_filename_def)
  ultimately show ?thesis by (simp add: output_filename_def)
next
  case False
  have ne: "u ''.json'' \<noteq> []" by (simp add: u_def)
  have absent: "\<nexists>a b. name = a @ u ''.json'' @ b"
  proof
    assume "\<exists>a b. name = a @ u ''.json'' @ b"
    then obtain a b where ab: "name = a @ u ''.json'' @ b" by blast
    with assms have "b = []" by blast
    with ab have "endswith name (u ''.json'')" by (auto simp: endswith_iff)
    with False show False by contradiction
  qed
  with ne have "replace_from (u ''.json'') (u ''_gemini.json'') name = name"
    by (rule replace_from_absent)
  with ne have same: "replace name (u ''.json'') (u ''_gemini.json'') = name"
    by (simp add: replace_def)
  have "\<not> endswith name (u ''_gemini.json'')"
  proof
    assume "endswith name (u ''_gemini.json'')"
    then obtain base where "name = base @ u ''_gemini.json''"
      by (auto simp: endswith_iff)
    then have "name = (base @ u ''_gemini'') @ u ''.json''"
      by (simp only: gemini_suffix append_assoc)
    then have "\<exists>b. name = b @ u ''.json''" by blast
    then have "endswith name (u ''.json'')"
      by (simp only: endswith_iff)
    with False show False by contradiction
  qed
  with same False show ?thesis
    by (simp add: output_filename_def ref_output_filename_def)
qed

text \<open>
  Claim C9 says that the output name is the original name with its \<^verbatim>\<open>.json\<close> suffix
  replaced by \<^verbatim>\<open>_gemini.json\<close>. Line 242 replaces every occurrence of \<^verbatim>\<open>.json\<close>, not
  only the suffix: for \<^verbatim>\<open>a.json.json\<close> the code gives \<^verbatim>\<open>a_gemini.json_gemini.json\<close>, where
  the claim asks for \<^verbatim>\<open>a.json_gemini.json\<close>.
\<close>

theorem output_filename_double_suffix:
  "output_filename (u ''a.json.json'') = u ''a_gemini.json_gemini.json'' \<and>
   ref_output_filename (u ''a.json.json'') = u ''a.json_gemini.json'' \<and>
   output_filename (u ''a.json.json'') \<noteq> ref_output_filename (u ''a.json.json'')"
  by (simp add: output_filename_def ref_output_filename_def replace_def endswith_def u_def)

section \<open>A value of \<open>chat_messages\<close> that is not a list\<close>

lemma not_mapping_fails:
  assumes "\<forall>d. x \<noteq> JObj d"
  shows "process_message enc st x = Inl TypeError"
  using assms by (cases x) (simp_all add: process_message_def)

text \<open>
  Claim C10 as stated fails: the check looks at the key only, and an empty string or
  an empty mapping under \<open>chat_messages\<close> is iterated zero times, so the conversion
  succeeds with no chunks.
\<close>

theorem empty_string_counterexample:
  "convert_claude_to_gemini char_tokens (JObj [(u ''chat_messages'', JStr [])]) =
     Inr (converted [], token_stats_init) \<and>
   convert_claude_to_gemini char_tokens (JObj [(u ''chat_messages'', JObj [])]) =
     Inr (converted [], token_stats_init)"
  by (simp add: convert_claude_to_gemini_def conv_state_init_def)

text \<open>
  Claim C10, amended. The check looks at the key only. When \<open>chat_messages\<close> holds a
  value that is not a list, or a list whose first element is not a mapping, the input
  passes the check (no \<^verbatim>\<open>ValueError\<close>); the traversal then fails with \<^verbatim>\<open>TypeError\<close>, which
  is neither of the specification's two errors, except for the empty string and the
  empty mapping, which convert to a document without chunks and zeroed statistics.
\<close>

theorem chat_messages_not_a_list:
  assumes "map_of kvs (u ''chat_messages'') = Some v"
    and "(\<forall>xs. v \<noteq> JArr xs) \<or> (\<exists>x xs. v = JArr (x # xs) \<and> (\<forall>d. x \<noteq> JObj d))"
  shows "convert_claude_to_gemini enc (JObj kvs) \<noteq> Inl ValueError \<and>
         convert_claude_to_gemini enc (JObj kvs) =
           (if v = JStr [] \<or> v = JObj [] then Inr (converted [], token_stats_init)
            else Inl TypeError)"
proof -
  have run: "convert_claude_to_gemini enc (JObj kvs) =
      (case py_iter v of
         Inl e \<Rightarrow> Inl e
       | Inr messages \<Rightarrow>
           (case messages_loop enc conv_state_init messages of
              Inl e \<Rightarrow> Inl e
            | Inr st \<Rightarrow> Inr (converted (chunks st), stats st)))"
    using assms(1) by (simp add: convert_claude_to_gemini_def)
  have "convert_claude_to_gemini enc (JObj kvs) =
      (if v = JStr [] \<or> v = JObj [] then Inr (converted [], token_stats_init)
       else Inl TypeError)"
  proof (cases v)
    case (JArr ys)
    with assms(2) obtain x xs where ys: "ys = x # xs" and x: "\<forall>d. x \<noteq> JObj d" by auto
    from x have "process_message enc conv_state_init x = Inl TypeError"
      by (rule not_mapping_fails)
    with run JArr ys show ?thesis by simp
  next
    case (JObj items)
    show ?thesis
    proof (cases items)
      case Nil
      with run JObj show ?thesis by (simp add: conv_state_init_def)
    next
      case (Cons kv rest)
      have "process_message enc conv_state_init (JStr (fst kv)) = Inl TypeError"
        by (simp add: process_message_def)
      with run JObj Cons show ?thesis by simp
    qed
  next
    case (JStr s)
    show ?thesis
    proof (cases s)
      case Nil
      with run JStr show ?thesis by (simp add: conv_state_init_def)
    next
      case (Cons c rest)
      have "process_message enc conv_state_init (JStr [c]) = Inl TypeError"
        by (simp add: process_message_def)
      with run JStr Cons show ?thesis by simp
    qed
  qed (use run in simp_all)
  then show ?thesis by simp
qed

theorem chat_messages_not_a_list_witness:
  "map_of [(u ''chat_messages'', JNull)] (u ''chat_messages'') = Some JNull \<and>
   (\<forall>xs. JNull \<noteq> JArr xs) \<and>
   convert_claude_to_gemini char_tokens (JObj [(u ''chat_messages'', JNull)]) \<noteq> Inl ValueError \<and>
   convert_claude_to_gemini char_tokens (JObj [(u ''chat_messages'', JNull)]) = Inl TypeError \<and>
   convert_claude_to_gemini char_tokens (JObj [(u ''chat_messages'', JArr [JInt 1])]) =
     Inl TypeError"
  using chat_messages_not_a_list [of "[(u ''chat_messages'', JNull)]" JNull char_tokens]
    chat_messages_not_a_list [of "[(u ''chat_messages'', JArr [JInt 1])]" "JArr [JInt 1]"
      char_tokens]
  by simp

end
